theory Spec2Isabelle
  imports Complex_Main "HOL-Library.Sublist"
begin

section \<open>Exceptions\<close>

text \<open>
  The Python exceptions that the modelled code can raise. \<open>SendError\<close> stands for whatever
  the chat library raises when \<open>Channel.send\<close> fails.
\<close>

datatype py_error = ValueError | IndexError | SendError

datatype outcome = Returned | Raised py_error

section \<open>guess\_handler.py\<close>

text \<open>
  \<open>guesses\<close> is a Python dict from names to integer guesses. A dict keeps its keys in
  insertion order and \<open>get_score\<close> iterates over it, so it is an association list:
  assigning to a present key replaces the stored guess in place, assigning to a new key appends.
\<close>

record guess_handler =
  use_latest_reply :: bool
  guesses :: "(string \<times> int) list"

fun dict_set :: "'k \<Rightarrow> 'v \<Rightarrow> ('k \<times> 'v) list \<Rightarrow> ('k \<times> 'v) list" where
  "dict_set k v [] = [(k, v)]"
| "dict_set k v (p # ps) = (if fst p = k then (k, v) # ps else p # dict_set k v ps)"

definition dict_get :: "('k \<times> 'v) list \<Rightarrow> 'k \<Rightarrow> 'v option" where
  "dict_get d k = map_of d k"

definition dict_values :: "('k \<times> 'v) list \<Rightarrow> 'v list" where
  "dict_values d = map snd d"

definition guess_handler_init :: "bool \<Rightarrow> guess_handler" where
  "guess_handler_init latest = \<lparr>use_latest_reply = latest, guesses = []\<rparr>"

definition accept_guess :: "string \<Rightarrow> int \<Rightarrow> guess_handler \<Rightarrow> guess_handler" where
  "accept_guess name val h =
     (if use_latest_reply h then h\<lparr>guesses := dict_set name val (guesses h)\<rparr>
      else if dict_get (guesses h) name = None
           then h\<lparr>guesses := dict_set name val (guesses h)\<rparr>
           else h)"

text \<open>
  The \<open>for i in raw_values[1:]\<close> loop of \<open>get_score\<close>. Its arguments are the score sought,
  the current \<open>result_values\<close>, the current \<open>last_i\<close> and the values still to visit; the
  \<open>break\<close> is the branch that does not recurse. Python compares a float with an int
  exactly, so the score is a real number compared with the embedded integer.
\<close>

fun closest_loop :: "real \<Rightarrow> int \<Rightarrow> int \<Rightarrow> int list \<Rightarrow> int" where
  "closest_loop v result_values last_i [] = result_values"
| "closest_loop v result_values last_i (i # rest) =
     (if v < real_of_int i then last_i else closest_loop v result_values i rest)"

text \<open>
  \<open>get_score\<close>. \<open>raw_values[0]\<close> raises \<open>IndexError\<close> and \<open>min(diffs)\<close> raises
  \<open>ValueError\<close> when no guess is stored. In the branch that is not
  closest-without-going-over the differences are taken in exact arithmetic.
\<close>

definition get_score ::
  "real \<Rightarrow> bool \<Rightarrow> guess_handler \<Rightarrow> py_error + (string list \<times> int set)" where
  "get_score v closest_without_going_over h =
     (let raw_values = sort (dict_values (guesses h)) in
      case raw_values of
        [] \<Rightarrow> Inl (if closest_without_going_over then IndexError else ValueError)
      | r0 # rest \<Rightarrow>
          let result_values =
                (if closest_without_going_over
                 then {closest_loop v r0 r0 rest}
                 else
                   let diffs = map (\<lambda>i. \<bar>real_of_int i - v\<bar>) raw_values;
                       min_diff = Min (set diffs)
                   in set (map (\<lambda>k. raw_values ! k)
                             (filter (\<lambda>k. diffs ! k = min_diff) [0..<length diffs])));
              result_names =
                filter (\<lambda>n. the (dict_get (guesses h) n) \<in> result_values)
                       (map fst (guesses h))
          in Inr (result_names, result_values))"

definition num_replies :: "guess_handler \<Rightarrow> nat" where
  "num_replies h = length (guesses h)"

section \<open>bot.py: quote generation\<close>

text \<open>
  \<open>ProseGen\<close> is an external library. Its \<open>make_statement\<close> is a parameter of the model:
  a function from the generator's state and the requested minimum length to the text it
  produces and the generator's next state. \<open>get_quote\<close> returns the quote, and with it
  the number of calls it made and the generator's state afterwards.
\<close>

type_synonym 'q prosegen = "'q \<Rightarrow> int \<Rightarrow> string \<times> 'q"

fun get_quote_loop ::
  "nat \<Rightarrow> 'q prosegen \<Rightarrow> 'q \<Rightarrow> int \<Rightarrow> int \<Rightarrow> nat \<Rightarrow> string \<times> nat \<times> 'q" where
  "get_quote_loop 0 make_statement q min_length max_length calls =
     (''I don't like coffee.'', calls, q)"
| "get_quote_loop (Suc n) make_statement q min_length max_length calls =
     (case make_statement q min_length of
        (wisdom, q') \<Rightarrow>
          if min_length < int (length wisdom) \<and> int (length wisdom) < max_length
          then (wisdom, Suc calls, q')
          else get_quote_loop n make_statement q' min_length max_length (Suc calls))"

definition get_quote :: "'q prosegen \<Rightarrow> 'q \<Rightarrow> int \<Rightarrow> int \<Rightarrow> string \<times> nat \<times> 'q" where
  "get_quote make_statement q min_length max_length =
     get_quote_loop 100 make_statement q min_length max_length 0"

text \<open>
  The generator's state before its \<open>k\<close>-th call (counting from 0) and the text that call
  returns, used to state what \<open>get_quote\<close> computes.
\<close>

fun state_before :: "'q prosegen \<Rightarrow> 'q \<Rightarrow> int \<Rightarrow> nat \<Rightarrow> 'q" where
  "state_before make_statement q min_length 0 = q"
| "state_before make_statement q min_length (Suc k) =
     snd (make_statement (state_before make_statement q min_length k) min_length)"

definition statement_no :: "'q prosegen \<Rightarrow> 'q \<Rightarrow> int \<Rightarrow> nat \<Rightarrow> string" where
  "statement_no make_statement q min_length k =
     fst (make_statement (state_before make_statement q min_length k) min_length)"

definition acceptable :: "int \<Rightarrow> int \<Rightarrow> string \<Rightarrow> bool" where
  "acceptable min_length max_length wisdom \<longleftrightarrow>
     min_length < int (length wisdom) \<and> int (length wisdom) < max_length"

section \<open>bot.py: the cosmetic transform\<close>

text \<open>
  Python's \<open>str.replace(old, new)\<close>: every non-overlapping occurrence of \<open>old\<close>, found
  from the left, is replaced by \<open>new\<close>; with an empty \<open>old\<close>, \<open>new\<close> is put before every
  character and at the end.
\<close>

function str_replace :: "string \<Rightarrow> string \<Rightarrow> string \<Rightarrow> string" where
  "str_replace old new [] = (if old = [] then new else [])"
| "str_replace old new (c # cs) =
     (if old = [] then new @ c # str_replace old new cs
      else if prefix old (c # cs)
           then new @ str_replace old new (drop (length old) (c # cs))
           else c # str_replace old new cs)"
  by pat_completeness auto
termination
  by (relation "measure (\<lambda>(old, new, s). length s)") auto

definition owo_magic :: "string \<Rightarrow> string" where
  "owo_magic non_owo_string =
     str_replace ''l'' ''w''
       (str_replace ''L'' ''W''
         (str_replace ''r'' ''w''
           (str_replace ''R'' ''W''
             (str_replace ''ove'' ''wuw'' non_owo_string))))"

section \<open>bot.py: the bot and its event loop\<close>

text \<open>
  Modelled from the spec: the \<open>Config\<close> of \<open>snerge.config\<close>, which is not among the
  sources: three ranges of seconds and the range of quote lengths, each a pair
  \<open>(min, max)\<close> of integers.
\<close>

record snerge_config =
  startup_probe :: "int \<times> int"
  chat_active_probe :: "int \<times> int"
  auto_quote_time :: "int \<times> int"
  quote_length :: "int \<times> int"

definition nonempty_range :: "int \<times> int \<Rightarrow> bool" where
  "nonempty_range rng \<longleftrightarrow> fst rng \<le> snd rng"

definition in_range :: "int \<times> int \<Rightarrow> int \<Rightarrow> bool" where
  "in_range rng d \<longleftrightarrow> fst rng \<le> d \<and> d \<le> snd rng"

text \<open>
  The chat library's objects. A channel answers \<open>get_chatter\<close> with a \<open>Chatter\<close>, with a
  \<open>PartialChatter\<close> (which is not an instance of \<open>Chatter\<close>) or with \<open>None\<close>. A message has
  an optional author, who has a name and the moderator flag, and a content.
\<close>

datatype chatter_lookup = FoundChatter | FoundPartialChatter | NoChatter

datatype channel = Channel (get_chatter: "string \<Rightarrow> chatter_lookup")

record user =
  name :: string
  is_mod :: bool

record message =
  author :: "user option"
  content :: string

text \<open>
  The event loop as far as the bot uses it: the handles that \<open>call_later\<close> has returned,
  each with its delay and whether it is still pending, was cancelled or has fired, and the
  tasks that \<open>create_task\<close> has queued and that have not started yet. The only callback
  the bot ever gives to \<open>call_later\<close> creates a \<open>queue_quote\<close> task, so a timer does not
  store its callback.
\<close>

datatype timer_status = Pending | Cancelled | Fired

datatype task = QueueQuoteTask | SendQuoteTask

datatype effect = Sent string | SendFailed string | Closed

text \<open>
  The fields of \<open>Bot\<close> (\<open>timer\<close> is \<open>_timer\<close>, \<open>stop_flag\<close> is \<open>_stop\<close>), the event loop,
  and what the outside has seen: \<open>effects\<close> lists the sends and closes of the chat session
  in order, \<open>statements\<close> counts the calls of \<open>make_statement\<close>. \<open>ready_pc\<close> records how far
  the library's single dispatch of \<open>event_ready\<close> has come: 0 before the channel is
  joined, 1 while the greeting is being sent, 2 afterwards.
\<close>

record 'q bot =
  config :: snerge_config
  nick :: string
  quotes :: 'q
  target :: "channel option"
  last_message :: int
  timer :: "nat option"
  stop_flag :: bool
  timers :: "(int \<times> timer_status) list"
  tasks :: "task list"
  effects :: "effect list"
  statements :: nat
  ready_pc :: nat

definition bot_init :: "snerge_config \<Rightarrow> string \<Rightarrow> 'q \<Rightarrow> 'q bot" where
  "bot_init c n q =
     \<lparr>config = c, nick = n, quotes = q, target = None, last_message = 0, timer = None,
      stop_flag = False, timers = [], tasks = [], effects = [], statements = 0,
      ready_pc = 0\<rparr>"

definition create_task :: "task \<Rightarrow> 'q bot \<Rightarrow> 'q bot" where
  "create_task t s = s\<lparr>tasks := tasks s @ [t]\<rparr>"

definition call_later :: "int \<Rightarrow> 'q bot \<Rightarrow> nat \<times> 'q bot" where
  "call_later delay s = (length (timers s), s\<lparr>timers := timers s @ [(delay, Pending)]\<rparr>)"

definition cancel :: "nat \<Rightarrow> 'q bot \<Rightarrow> 'q bot" where
  "cancel h s =
     (if h < length (timers s) \<and> snd (timers s ! h) = Pending
      then s\<lparr>timers := (timers s)[h := (fst (timers s ! h), Cancelled)]\<rparr>
      else s)"

text \<open>
  \<open>Channel.send\<close> either succeeds or raises; which of the two is an input (\<open>ok\<close>) of every
  function that sends. \<open>Client.close\<close> closes the session.
\<close>

definition send :: "string \<Rightarrow> bool \<Rightarrow> 'q bot \<Rightarrow> outcome \<times> 'q bot" where
  "send text ok s =
     (if ok then (Returned, s\<lparr>effects := effects s @ [Sent text]\<rparr>)
      else (Raised SendError, s\<lparr>effects := effects s @ [SendFailed text]\<rparr>))"

definition close :: "'q bot \<Rightarrow> 'q bot" where
  "close s = s\<lparr>effects := effects s @ [Closed]\<rparr>"

text \<open>
  \<open>random.randint(a, b)\<close> raises \<open>ValueError\<close> on an empty range and otherwise returns a
  member of \<open>[a, b]\<close>; \<open>r\<close> is the generator's raw draw, and every member of the range is
  the result for some draw.
\<close>

definition randint :: "int \<times> int \<Rightarrow> int \<Rightarrow> py_error + int" where
  "randint rng r =
     (case rng of (a, b) \<Rightarrow> if b < a then Inl ValueError else Inr (a + r mod (b - a + 1)))"

text \<open>\<open>int(x)\<close> of a float truncates towards zero; \<open>str.lower\<close> on ASCII letters.\<close>

definition py_int :: "real \<Rightarrow> int" where
  "py_int x = (if 0 \<le> x then \<lfloor>x\<rfloor> else \<lceil>x\<rceil>)"

definition lower_char :: "char \<Rightarrow> char" where
  "lower_char c =
     (let n = (of_char c :: nat) in if 65 \<le> n \<and> n \<le> 90 then char_of (n + 32) else c)"

definition lower :: "string \<Rightarrow> string" where
  "lower s = map lower_char s"

definition send_quote :: "'q prosegen \<Rightarrow> int \<Rightarrow> bool \<Rightarrow> 'q bot \<Rightarrow> outcome \<times> 'q bot" where
  "send_quote make_statement r ok s =
     (case target s of
        None \<Rightarrow> (Returned, s)
      | Some c \<Rightarrow>
          (case get_quote make_statement (quotes s)
                  (fst (quote_length (config s))) (snd (quote_length (config s))) of
             (quote, calls, q') \<Rightarrow>
               let s1 = s\<lparr>quotes := q', statements := statements s + calls\<rparr> in
               (case randint (0, 200) r of
                  Inl e \<Rightarrow> (Raised e, s1)
                | Inr n \<Rightarrow>
                    if n = 0
                    then send (''[UwU] '' @ owo_magic quote @ '' [UwU]'') ok s1
                    else send (''sergeSnerge '' @ quote @ '' sergeSnerge'') ok s1)))"

text \<open>
  \<open>loop.time()\<close> is the argument \<open>now\<close>, a float of seconds taken as a real number; the
  subtraction in \<open>queue_quote\<close> is exact.
\<close>

definition event_message ::
  "'q prosegen \<Rightarrow> message \<Rightarrow> real \<Rightarrow> int \<Rightarrow> bool \<Rightarrow> 'q bot \<Rightarrow> outcome \<times> 'q bot" where
  "event_message make_statement m now r ok s =
     (case author m of
        None \<Rightarrow> (Returned, s)
      | Some a \<Rightarrow>
          if lower (name a) = lower (nick s) then (Returned, s)
          else
            let s1 = s\<lparr>last_message := py_int now\<rparr> in
            (case target s1 of
               None \<Rightarrow> (Returned, s1)
             | Some c \<Rightarrow>
                 if get_chatter c (name a) \<noteq> FoundChatter \<or> \<not> is_mod a then (Returned, s1)
                 else
                   let content = lower (content m) in
                   if content = ''!snerge'' \<or> prefix ''!snerge '' content
                   then send_quote make_statement r ok s1
                   else (Returned, s1)))"

definition queue_quote :: "real \<Rightarrow> int \<Rightarrow> 'q bot \<Rightarrow> outcome \<times> 'q bot" where
  "queue_quote now r s =
     (if stop_flag s then (Returned, s)
      else
        (case (case target s of
                 None \<Rightarrow> (s, randint (startup_probe (config s)) r)
               | Some c \<Rightarrow>
                   if now - real_of_int (last_message s)
                        > real_of_int (fst (chat_active_probe (config s)))
                   then (s, randint (chat_active_probe (config s)) r)
                   else (create_task SendQuoteTask s, randint (auto_quote_time (config s)) r)) of
           (s1, Inl e) \<Rightarrow> (Raised e, s1)
         | (s1, Inr next_call) \<Rightarrow>
             (case call_later next_call s1 of
                (h, s2) \<Rightarrow> (Returned, s2\<lparr>timer := Some h\<rparr>))))"

definition stop :: "bool \<Rightarrow> 'q bot \<Rightarrow> outcome \<times> 'q bot" where
  "stop ok s =
     (let s1 = s\<lparr>stop_flag := True\<rparr>;
          s2 = (case timer s1 of None \<Rightarrow> s1 | Some h \<Rightarrow> cancel h s1)
      in case target s2 of
           None \<Rightarrow> (Returned, close s2)
         | Some c \<Rightarrow>
             (case send ''sergeSnerge Sleepy time!'' ok s2 of
                (Raised e, s3) \<Rightarrow> (Raised e, s3)
              | (Returned, s3) \<Rightarrow> (Returned, close s3)))"

text \<open>
  \<open>event_ready\<close>. The \<open>while not self.target\<close> loop takes the successive results of
  \<open>get_channel\<close> from a list and ends at the first channel; when the list runs out before
  that, the handler is still in its loop (\<open>None\<close>). What follows the loop sends the
  greeting and starts the first \<open>queue_quote\<close>.
\<close>

fun event_ready_join :: "channel option list \<Rightarrow> 'q bot \<Rightarrow> 'q bot option" where
  "event_ready_join [] s = (case target s of None \<Rightarrow> None | Some c \<Rightarrow> Some s)"
| "event_ready_join (r # rs) s =
     (case target s of None \<Rightarrow> event_ready_join rs (s\<lparr>target := r\<rparr>) | Some c \<Rightarrow> Some s)"

definition event_ready_greet :: "bool \<Rightarrow> 'q bot \<Rightarrow> outcome \<times> 'q bot" where
  "event_ready_greet ok s =
     (case send ''Never fear, Snerge is here!'' ok s of
        (Raised e, s1) \<Rightarrow> (Raised e, s1)
      | (Returned, s1) \<Rightarrow> (Returned, create_task QueueQuoteTask s1))"

definition event_ready :: "channel option list \<Rightarrow> bool \<Rightarrow> 'q bot \<Rightarrow> (outcome \<times> 'q bot) option" where
  "event_ready rs ok s = map_option (event_ready_greet ok) (event_ready_join rs s)"

text \<open>
  What can happen on the event loop, one atomic step each. Every handler runs without
  interruption up to its first \<open>await\<close>; \<open>event_ready\<close> is the only one that writes to the
  bot or the loop after an \<open>await\<close>, so it takes two steps, and other steps may come
  between them. A timer that is pending may fire at any time; the task at the head of the
  queue may run at any time; an exception raised in a step ends that step.
\<close>

datatype event =
    ReadyJoin "channel option list"
  | ReadyGreet bool
  | Inbound message real int bool
  | TimerFires nat
  | RunTask real int bool
  | Stop bool

fun step :: "'q prosegen \<Rightarrow> event \<Rightarrow> 'q bot \<Rightarrow> 'q bot" where
  "step mk (ReadyJoin rs) s =
     (if ready_pc s = 0
      then (case event_ready_join rs s of None \<Rightarrow> s | Some s1 \<Rightarrow> s1\<lparr>ready_pc := 1\<rparr>)
      else s)"
| "step mk (ReadyGreet ok) s =
     (if ready_pc s = 1 then (snd (event_ready_greet ok s))\<lparr>ready_pc := 2\<rparr> else s)"
| "step mk (Inbound m now r ok) s = snd (event_message mk m now r ok s)"
| "step mk (TimerFires h) s =
     (if h < length (timers s) \<and> snd (timers s ! h) = Pending
      then create_task QueueQuoteTask
             (s\<lparr>timers := (timers s)[h := (fst (timers s ! h), Fired)]\<rparr>)
      else s)"
| "step mk (RunTask now r ok) s =
     (case tasks s of
        [] \<Rightarrow> s
      | t # ts \<Rightarrow>
          (case t of
             QueueQuoteTask \<Rightarrow> snd (queue_quote now r (s\<lparr>tasks := ts\<rparr>))
           | SendQuoteTask \<Rightarrow> snd (send_quote mk r ok (s\<lparr>tasks := ts\<rparr>))))"
| "step mk (Stop ok) s = snd (stop ok s)"

fun run :: "'q prosegen \<Rightarrow> event list \<Rightarrow> 'q bot \<Rightarrow> 'q bot" where
  "run mk [] s = s"
| "run mk (e # es) s = run mk es (step mk e s)"

definition pending_timers :: "'q bot \<Rightarrow> nat list" where
  "pending_timers s = filter (\<lambda>h. snd (timers s ! h) = Pending) [0..<length (timers s)]"

section \<open>Auxiliary definitions for the statements\<close>

text \<open>
  Replacing one character by another, the farewell that \<open>stop\<close> sends, and a small
  configuration, channel, generators and messages on which the theorems are run.
\<close>

definition replace_char :: "char \<Rightarrow> char \<Rightarrow> char \<Rightarrow> char" where
  "replace_char old new c = (if c = old then new else c)"

definition farewell :: string where
  "farewell = ''sergeSnerge Sleepy time!''"

definition example_config :: snerge_config where
  "example_config =
     \<lparr>startup_probe = (5, 10), chat_active_probe = (60, 120), auto_quote_time = (30, 45),
      quote_length = (2, 5)\<rparr>"

definition example_channel :: channel where
  "example_channel =
     Channel (\<lambda>n. if n = ''mod'' \<or> n = ''fan'' then FoundChatter else NoChatter)"

definition connected_bot :: "nat bot" where
  "connected_bot = (bot_init example_config ''snerge'' 0)\<lparr>target := Some example_channel\<rparr>"

definition love_prosegen :: "unit prosegen" where
  "love_prosegen u n = (''Love'', u)"

definition love_bot :: "unit bot" where
  "love_bot = (bot_init example_config ''snerge'' ())\<lparr>target := Some example_channel\<rparr>"

definition mod_message :: message where
  "mod_message = \<lparr>author = Some \<lparr>name = ''mod'', is_mod = True\<rparr>, content = ''!Snerge now''\<rparr>"

definition fan_message :: message where
  "fan_message = \<lparr>author = Some \<lparr>name = ''fan'', is_mod = False\<rparr>, content = ''!snerge''\<rparr>"

text \<open>
  What the scheduler keeps true in every state it reaches: a pending timer is the one in
  \<open>_timer\<close>; no timer is pending once \<open>_stop\<close> is set, nor while \<open>event_ready\<close> has not
  started the first tick, nor while a \<open>queue_quote\<close> task is queued; and at most one
  \<open>queue_quote\<close> task is queued, none before \<open>event_ready\<close> has finished.
\<close>

definition scheduler_inv :: "'q bot \<Rightarrow> bool" where
  "scheduler_inv s \<longleftrightarrow>
     (\<forall>h. h < length (timers s) \<and> snd (timers s ! h) = Pending \<longrightarrow> timer s = Some h) \<and>
     (stop_flag s \<longrightarrow> (\<forall>h. h < length (timers s) \<longrightarrow> snd (timers s ! h) \<noteq> Pending)) \<and>
     (ready_pc s < 2 \<or> QueueQuoteTask \<in> set (tasks s) \<longrightarrow>
        (\<forall>h. h < length (timers s) \<longrightarrow> snd (timers s ! h) \<noteq> Pending)) \<and>
     (ready_pc s < 2 \<longrightarrow> QueueQuoteTask \<notin> set (tasks s)) \<and>
     length (filter (\<lambda>t. t = QueueQuoteTask) (tasks s)) \<le> 1"

definition example_trace :: "event list" where
  "example_trace =
     [ReadyJoin [None, Some example_channel], ReadyGreet True, RunTask 100 7 True,
      TimerFires 0, Stop True]"

section \<open>Properties of guess\_handler\<close>

lemma map_of_dict_set: "map_of (dict_set k v d) = (map_of d)(k \<mapsto> v)"
  by (induction d) (auto simp: fun_eq_iff)

lemma dict_set_keys:
  "map fst (dict_set k v d) = (if k \<in> fst ` set d then map fst d else map fst d @ [k])"
  by (induction d) auto

lemma distinct_dict_set: "distinct (map fst d) \<Longrightarrow> distinct (map fst (dict_set k v d))"
  by (simp add: dict_set_keys)

text \<open>
  C9. \<open>accept_guess name val\<close> makes \<open>val\<close> the guess of \<open>name\<close> when \<open>use_latest_reply\<close> is
  set or \<open>name\<close> has no guess yet; when \<open>use_latest_reply\<close> is not set and \<open>name\<close> has a
  guess, that guess stays (the first reply wins); the guesses of all other names stay as
  they were in every case.
\<close>

theorem accept_guess_latest_or_first_wins:
  "((use_latest_reply h \<or> dict_get (guesses h) nm = None) \<longrightarrow>
      dict_get (guesses (accept_guess nm val h)) nm = Some val) \<and>
   ((\<not> use_latest_reply h \<and> dict_get (guesses h) nm \<noteq> None) \<longrightarrow>
      dict_get (guesses (accept_guess nm val h)) nm = dict_get (guesses h) nm) \<and>
   (\<forall>other. other \<noteq> nm \<longrightarrow>
      dict_get (guesses (accept_guess nm val h)) other = dict_get (guesses h) other)"
  by (simp add: accept_guess_def dict_get_def map_of_dict_set)

theorem accept_guess_latest_or_first_wins_witness:
  "dict_get (guesses (accept_guess ''ann'' 9
       \<lparr>use_latest_reply = True, guesses = [(''ann'', 7), (''bob'', 3)]\<rparr>)) ''ann'' = Some 9 \<and>
   dict_get (guesses (accept_guess ''ann'' 9
       \<lparr>use_latest_reply = False, guesses = [(''ann'', 7), (''bob'', 3)]\<rparr>)) ''ann'' = Some 7 \<and>
   dict_get (guesses (accept_guess ''ann'' 9
       \<lparr>use_latest_reply = False, guesses = [(''ann'', 7), (''bob'', 3)]\<rparr>)) ''bob'' = Some 3"
  using accept_guess_latest_or_first_wins
      [of "\<lparr>use_latest_reply = True, guesses = [(''ann'', 7), (''bob'', 3)]\<rparr>" "''ann''" 9]
    accept_guess_latest_or_first_wins
      [of "\<lparr>use_latest_reply = False, guesses = [(''ann'', 7), (''bob'', 3)]\<rparr>" "''ann''" 9]
  by (simp add: dict_get_def)

lemma closest_loop_none_over:
  "(\<forall>i\<in>set rest. \<not> v < real_of_int i) \<Longrightarrow> closest_loop v r l rest = r"
  by (induction rest arbitrary: l) auto

lemma closest_loop_all_over:
  "(\<forall>i\<in>set rest. v < real_of_int i) \<Longrightarrow> closest_loop v r r rest = r"
  by (cases rest) auto

lemma sorted_head_Min: "sorted (x # xs) \<Longrightarrow> Min (set (x # xs)) = x"
  by (intro Min_eqI) auto

text \<open>
  C10. With at least one guess stored, \<open>get_score v True\<close> (closest without going over)
  returns the set that holds only the least stored guess, both when \<open>v\<close> is at least every
  stored guess and when \<open>v\<close> is below every stored guess (where that guess is over \<open>v\<close>).
\<close>

theorem get_score_closest_returns_minimum:
  assumes nonempty: "guesses h \<noteq> []"
    and side: "(\<forall>g\<in>set (dict_values (guesses h)). real_of_int g \<le> v) \<or>
               (\<forall>g\<in>set (dict_values (guesses h)). v < real_of_int g)"
  shows "\<exists>names. get_score v True h = Inr (names, {Min (set (dict_values (guesses h)))})"
proof -
  let ?raw = "sort (dict_values (guesses h))"
  have "set ?raw = snd ` set (guesses h)"
    by (simp add: dict_values_def)
  moreover have "set (guesses h) \<noteq> {}"
    using nonempty by simp
  ultimately have "set ?raw \<noteq> {}"
    by simp
  then have ne: "?raw \<noteq> []"
    by fastforce
  then obtain r0 rest where raw: "?raw = r0 # rest"
    by (cases ?raw) auto
  have "sorted ?raw"
    by simp
  then have "sorted (r0 # rest)"
    by (simp only: raw)
  then have "Min (set (r0 # rest)) = r0"
    by (rule sorted_head_Min)
  moreover have sets: "set (r0 # rest) = set (dict_values (guesses h))"
    using arg_cong [OF raw, of set] by simp
  ultimately have least: "Min (set (dict_values (guesses h))) = r0"
    by simp
  have rest_sub: "set rest \<subseteq> set (dict_values (guesses h))"
    using sets by auto
  have "closest_loop v r0 r0 rest = r0"
  proof (rule disjE [OF side])
    assume "\<forall>g\<in>set (dict_values (guesses h)). real_of_int g \<le> v"
    then have "\<forall>i\<in>set rest. \<not> v < real_of_int i"
      using rest_sub by fastforce
    then show ?thesis by (rule closest_loop_none_over)
  next
    assume "\<forall>g\<in>set (dict_values (guesses h)). v < real_of_int g"
    then have "\<forall>i\<in>set rest. v < real_of_int i"
      using rest_sub by blast
    then show ?thesis by (rule closest_loop_all_over)
  qed
  then show ?thesis
    using raw least by (simp add: get_score_def Let_def)
qed

theorem get_score_closest_returns_minimum_witness:
  "get_score 9 True \<lparr>use_latest_reply = True, guesses = [(''ann'', 7), (''bob'', 3), (''cy'', 5)]\<rparr>
      = Inr ([''bob''], {3}) \<and>
   get_score 1 True \<lparr>use_latest_reply = True, guesses = [(''ann'', 7), (''bob'', 3), (''cy'', 5)]\<rparr>
      = Inr ([''bob''], {3})"
  using get_score_closest_returns_minimum
     [of "\<lparr>use_latest_reply = True, guesses = [(''ann'', 7), (''bob'', 3), (''cy'', 5)]\<rparr>" 9]
    get_score_closest_returns_minimum
     [of "\<lparr>use_latest_reply = True, guesses = [(''ann'', 7), (''bob'', 3), (''cy'', 5)]\<rparr>" 1]
  by (simp add: get_score_def dict_values_def dict_get_def)

section \<open>Properties of the quote generator\<close>

lemma get_quote_loop_all_fail:
  "(\<forall>k<n. \<not> acceptable mn mx (statement_no mk q mn (c + k))) \<Longrightarrow>
   get_quote_loop n mk (state_before mk q mn c) mn mx c =
     (''I don't like coffee.'', c + n, state_before mk q mn (c + n))"
proof (induction n arbitrary: c)
  case 0
  then show ?case by simp
next
  case (Suc n)
  obtain w q' where eq: "mk (state_before mk q mn c) mn = (w, q')"
    by (cases "mk (state_before mk q mn c) mn")
  have nxt: "state_before mk q mn (Suc c) = q'"
    using eq by simp
  have first: "(mn < int (length w) \<and> int (length w) < mx) = False"
    using Suc.prems [rule_format, of 0] eq by (simp add: acceptable_def statement_no_def)
  have rest: "\<forall>k<n. \<not> acceptable mn mx (statement_no mk q mn (Suc c + k))"
    using Suc.prems by auto
  have "get_quote_loop (Suc n) mk (state_before mk q mn c) mn mx c =
          get_quote_loop n mk (state_before mk q mn (Suc c)) mn mx (Suc c)"
    by (simp add: eq first nxt del: state_before.simps)
  also have "\<dots> = (''I don't like coffee.'', Suc c + n, state_before mk q mn (Suc c + n))"
    by (rule Suc.IH [OF rest])
  finally show ?case by simp
qed

lemma get_quote_loop_first:
  "k < n \<Longrightarrow> acceptable mn mx (statement_no mk q mn (c + k)) \<Longrightarrow>
   (\<forall>j<k. \<not> acceptable mn mx (statement_no mk q mn (c + j))) \<Longrightarrow>
   get_quote_loop n mk (state_before mk q mn c) mn mx c =
     (statement_no mk q mn (c + k), Suc (c + k), state_before mk q mn (Suc (c + k)))"
proof (induction n arbitrary: c k)
  case 0
  then show ?case by simp
next
  case (Suc n)
  obtain w q' where eq: "mk (state_before mk q mn c) mn = (w, q')"
    by (cases "mk (state_before mk q mn c) mn")
  have nxt: "state_before mk q mn (Suc c) = q'"
    using eq by simp
  have stm: "statement_no mk q mn c = w"
    using eq by (simp add: statement_no_def)
  show ?case
  proof (cases k)
    case 0
    have "mn < int (length w) \<and> int (length w) < mx"
      using Suc.prems(2) 0 stm by (simp add: acceptable_def)
    then show ?thesis
      using eq 0 stm nxt by simp
  next
    case (Suc k')
    have first: "(mn < int (length w) \<and> int (length w) < mx) = False"
      using Suc.prems(3) [rule_format, of 0] Suc stm by (simp add: acceptable_def)
    have a: "acceptable mn mx (statement_no mk q mn (Suc c + k'))"
      using Suc.prems(2) Suc by simp
    have r: "\<forall>j<k'. \<not> acceptable mn mx (statement_no mk q mn (Suc c + j))"
      using Suc.prems(3) Suc by auto
    have lt: "k' < n" using Suc.prems(1) Suc by simp
    have "get_quote_loop (Suc n) mk (state_before mk q mn c) mn mx c =
            get_quote_loop n mk (state_before mk q mn (Suc c)) mn mx (Suc c)"
      by (simp add: eq first nxt del: state_before.simps)
    also have "\<dots> = (statement_no mk q mn (Suc c + k'), Suc (Suc c + k'),
                       state_before mk q mn (Suc (Suc c + k')))"
      by (rule Suc.IH [OF lt a r])
    finally show ?thesis using Suc by simp
  qed
qed

lemma get_quote_no_acceptable:
  "\<forall>k<100. \<not> acceptable mn mx (statement_no mk q mn k) \<Longrightarrow>
   get_quote mk q mn mx = (''I don't like coffee.'', 100, state_before mk q mn 100)"
  using get_quote_loop_all_fail [of 100 mn mx mk q 0] by (simp add: get_quote_def)

lemma get_quote_least_acceptable:
  "k < 100 \<Longrightarrow> acceptable mn mx (statement_no mk q mn k) \<Longrightarrow>
   \<forall>j<k. \<not> acceptable mn mx (statement_no mk q mn j) \<Longrightarrow>
   get_quote mk q mn mx = (statement_no mk q mn k, Suc k, state_before mk q mn (Suc k))"
  using get_quote_loop_first [of k 100 mn mx mk q 0] by (simp add: get_quote_def)

lemma get_quote_total:
  "\<exists>wisdom calls q'. get_quote mk q mn mx = (wisdom, calls, q') \<and> 1 \<le> calls \<and> calls \<le> 100 \<and>
     (acceptable mn mx wisdom \<or> (wisdom = ''I don't like coffee.'' \<and> calls = 100))"
proof (cases "\<exists>k<100. acceptable mn mx (statement_no mk q mn k)")
  case False
  then have "\<forall>k<100. \<not> acceptable mn mx (statement_no mk q mn k)"
    by simp
  from get_quote_no_acceptable [OF this] show ?thesis
    by simp
next
  case True
  define k where "k = (LEAST k. acceptable mn mx (statement_no mk q mn k))"
  from True obtain k0 where k0: "k0 < 100" "acceptable mn mx (statement_no mk q mn k0)"
    by blast
  have acc: "acceptable mn mx (statement_no mk q mn k)"
    unfolding k_def using k0(2) by (rule LeastI)
  have "k \<le> k0"
    unfolding k_def using k0(2) by (rule Least_le)
  then have lt: "k < 100"
    using k0(1) by simp
  have least: "\<forall>j<k. \<not> acceptable mn mx (statement_no mk q mn j)"
    unfolding k_def using not_less_Least by blast
  from get_quote_least_acceptable [OF lt acc least] acc lt show ?thesis
    by simp
qed

text \<open>
  C1. \<open>get_quote\<close> always returns: it asks the generator for \<open>make_statement(min_length)\<close>
  at most 100 times and returns the first text whose length is strictly between
  \<open>min_length\<close> and \<open>max_length\<close>, having made exactly the calls up to that one; when none
  of the first 100 texts is in that bound it has made exactly 100 calls and returns
  \<open>I don't like coffee.\<close>. Nothing is asked of \<open>min_length\<close> and \<open>max_length\<close>.
\<close>

theorem get_quote_first_acceptable_or_fallback:
  "((\<forall>k<100. \<not> acceptable mn mx (statement_no mk q mn k)) \<longrightarrow>
      get_quote mk q mn mx = (''I don't like coffee.'', 100, state_before mk q mn 100)) \<and>
   (\<forall>k<100. acceptable mn mx (statement_no mk q mn k) \<and>
        (\<forall>j<k. \<not> acceptable mn mx (statement_no mk q mn j)) \<longrightarrow>
      get_quote mk q mn mx =
        (statement_no mk q mn k, Suc k, state_before mk q mn (Suc k))) \<and>
   (\<exists>wisdom calls q'. get_quote mk q mn mx = (wisdom, calls, q') \<and> 1 \<le> calls \<and> calls \<le> 100 \<and>
     (acceptable mn mx wisdom \<or> (wisdom = ''I don't like coffee.'' \<and> calls = 100)))"
  using get_quote_no_acceptable [of mn mx mk q] get_quote_least_acceptable [of _ mn mx mk q]
    get_quote_total [of mk q mn mx]
  by blast

theorem get_quote_first_acceptable_or_fallback_witness:
  "get_quote (\<lambda>(s::unit) n. ([], s)) () 2 5 = (''I don't like coffee.'', 100, ()) \<and>
   get_quote (\<lambda>s n. (replicate s CHR ''a'', Suc s)) 0 2 5 = (''aaa'', 4, 4)"
proof -
  have a: "\<forall>k<100. \<not> acceptable 2 5 (statement_no (\<lambda>(s::unit) n. ([], s)) () 2 k)"
    by (simp add: acceptable_def statement_no_def)
  have sb: "\<And>k. state_before (\<lambda>s n. (replicate s CHR ''a'', Suc s)) 0 2 k = k"
    subgoal for k by (induction k) simp_all done
  have b: "acceptable 2 5 (statement_no (\<lambda>s n. (replicate s CHR ''a'', Suc s)) 0 2 3) \<and>
        (\<forall>j<3. \<not> acceptable 2 5 (statement_no (\<lambda>s n. (replicate s CHR ''a'', Suc s)) 0 2 j))"
    by (simp add: acceptable_def statement_no_def sb)
  have c: "(3::nat) < 100" by simp
  have r: "replicate 3 CHR ''a'' = ''aaa''" by (simp add: numeral_3_eq_3)
  have 1: "get_quote (\<lambda>(s::unit) n. ([], s)) () 2 5 = (''I don't like coffee.'', 100, ())"
    using get_quote_first_acceptable_or_fallback [of 2 5 "\<lambda>(s::unit) n. ([], s)" "()", THEN conjunct1, THEN mp, OF a]
    by simp
  have 2: "get_quote (\<lambda>s n. (replicate s CHR ''a'', Suc s)) 0 2 5 = (''aaa'', 4, 4)"
    using get_quote_first_acceptable_or_fallback [of 2 5 "\<lambda>s n. (replicate s CHR ''a'', Suc s)" 0, THEN conjunct2, THEN conjunct1, THEN spec, THEN mp, OF c, THEN mp, OF b]
    by (simp add: statement_no_def sb r)
  show ?thesis using 1 2 by simp
qed

section \<open>Properties of the scheduler tick\<close>

lemma randint_in_range:
  assumes ne: "nonempty_range rng"
  shows "\<exists>d. randint rng r = Inr d \<and> in_range rng d"
proof -
  obtain a b where rng: "rng = (a, b)" by (cases rng)
  define m where "m = r mod (b - a + 1)"
  have pos: "0 < b - a + 1" using ne rng by (simp add: nonempty_range_def)
  have "0 \<le> m" "m < b - a + 1"
    unfolding m_def using pos by (rule pos_mod_sign, rule pos_mod_bound)
  then have "a \<le> a + m \<and> a + m \<le> b"
    by arith
  moreover have "randint rng r = Inr (a + m)"
    using ne rng by (simp add: randint_def nonempty_range_def m_def)
  ultimately show ?thesis
    using rng by (simp add: in_range_def)
qed

text \<open>
  C2. A tick that runs while the bot is not stopped returns after arming exactly one timer,
  whose handle it stores. With no channel joined the delay is in \<open>startup_probe\<close> and no
  post is triggered; with a channel and \<open>now - last_message\<close> strictly above the first
  component of \<open>chat_active_probe\<close> the delay is in \<open>chat_active_probe\<close> and no post is
  triggered; otherwise exactly one \<open>send_quote\<close> task is created and the delay is in
  \<open>auto_quote_time\<close>. The range drawn from is assumed to have \<open>min \<le> max\<close>, as the
  configuration's invariant says.
\<close>

theorem queue_quote_classifies_and_rearms:
  assumes running: "\<not> stop_flag s"
  shows
    "(target s = None \<and> nonempty_range (startup_probe (config s)) \<longrightarrow>
        (\<exists>d. in_range (startup_probe (config s)) d \<and>
             queue_quote now r s =
               (Returned, s\<lparr>timers := timers s @ [(d, Pending)],
                             timer := Some (length (timers s))\<rparr>))) \<and>
     (target s \<noteq> None \<and>
      now - real_of_int (last_message s) > real_of_int (fst (chat_active_probe (config s))) \<and>
      nonempty_range (chat_active_probe (config s)) \<longrightarrow>
        (\<exists>d. in_range (chat_active_probe (config s)) d \<and>
             queue_quote now r s =
               (Returned, s\<lparr>timers := timers s @ [(d, Pending)],
                             timer := Some (length (timers s))\<rparr>))) \<and>
     (target s \<noteq> None \<and>
      \<not> now - real_of_int (last_message s) > real_of_int (fst (chat_active_probe (config s))) \<and>
      nonempty_range (auto_quote_time (config s)) \<longrightarrow>
        (\<exists>d. in_range (auto_quote_time (config s)) d \<and>
             queue_quote now r s =
               (Returned, s\<lparr>tasks := tasks s @ [SendQuoteTask],
                             timers := timers s @ [(d, Pending)],
                             timer := Some (length (timers s))\<rparr>)))"
proof (intro conjI impI)
  assume a: "target s = None \<and> nonempty_range (startup_probe (config s))"
  then obtain d where d: "randint (startup_probe (config s)) r = Inr d"
      "in_range (startup_probe (config s)) d"
    using randint_in_range by blast
  have "queue_quote now r s =
          (Returned, s\<lparr>timers := timers s @ [(d, Pending)], timer := Some (length (timers s))\<rparr>)"
    using running a d(1) by (simp add: queue_quote_def call_later_def)
  with d(2) show "\<exists>d. in_range (startup_probe (config s)) d \<and>
             queue_quote now r s =
               (Returned, s\<lparr>timers := timers s @ [(d, Pending)],
                             timer := Some (length (timers s))\<rparr>)"
    by blast
next
  assume a: "target s \<noteq> None \<and>
      now - real_of_int (last_message s) > real_of_int (fst (chat_active_probe (config s))) \<and>
      nonempty_range (chat_active_probe (config s))"
  then obtain d where d: "randint (chat_active_probe (config s)) r = Inr d"
      "in_range (chat_active_probe (config s)) d"
    using randint_in_range by blast
  from a obtain c where c: "target s = Some c" by auto
  have "queue_quote now r s =
          (Returned, s\<lparr>timers := timers s @ [(d, Pending)], timer := Some (length (timers s))\<rparr>)"
    using running a c d(1) by (simp add: queue_quote_def call_later_def)
  with d(2) show "\<exists>d. in_range (chat_active_probe (config s)) d \<and>
             queue_quote now r s =
               (Returned, s\<lparr>timers := timers s @ [(d, Pending)],
                             timer := Some (length (timers s))\<rparr>)"
    by blast
next
  assume a: "target s \<noteq> None \<and>
      \<not> now - real_of_int (last_message s) > real_of_int (fst (chat_active_probe (config s))) \<and>
      nonempty_range (auto_quote_time (config s))"
  then obtain d where d: "randint (auto_quote_time (config s)) r = Inr d"
      "in_range (auto_quote_time (config s)) d"
    using randint_in_range by blast
  from a obtain c where c: "target s = Some c" by auto
  have "queue_quote now r s =
          (Returned, s\<lparr>tasks := tasks s @ [SendQuoteTask],
                             timers := timers s @ [(d, Pending)],
                             timer := Some (length (timers s))\<rparr>)"
    using running a c d(1) by (simp add: queue_quote_def call_later_def create_task_def)
  with d(2) show "\<exists>d. in_range (auto_quote_time (config s)) d \<and>
             queue_quote now r s =
               (Returned, s\<lparr>tasks := tasks s @ [SendQuoteTask],
                             timers := timers s @ [(d, Pending)],
                             timer := Some (length (timers s))\<rparr>)"
    by blast
qed


theorem queue_quote_classifies_and_rearms_witness:
  "queue_quote 100 7 (bot_init example_config ''snerge'' (0::nat)) =
     (Returned, (bot_init example_config ''snerge'' 0)\<lparr>timers := [(6, Pending)], timer := Some 0\<rparr>) \<and>
   queue_quote 100 7
       ((bot_init example_config ''snerge'' (0::nat))\<lparr>target := Some example_channel, last_message := 10\<rparr>) =
     (Returned, (bot_init example_config ''snerge'' 0)
        \<lparr>target := Some example_channel, last_message := 10,
          timers := [(67, Pending)], timer := Some 0\<rparr>) \<and>
   queue_quote 100 7
       ((bot_init example_config ''snerge'' (0::nat))\<lparr>target := Some example_channel, last_message := 40\<rparr>) =
     (Returned, (bot_init example_config ''snerge'' 0)
        \<lparr>target := Some example_channel, last_message := 40, tasks := [SendQuoteTask],
          timers := [(37, Pending)], timer := Some 0\<rparr>)"
  using queue_quote_classifies_and_rearms [of "bot_init example_config ''snerge'' (0::nat)" 100 7]
    queue_quote_classifies_and_rearms
      [of "(bot_init example_config ''snerge'' (0::nat))\<lparr>target := Some example_channel, last_message := 10\<rparr>" 100 7]
    queue_quote_classifies_and_rearms
      [of "(bot_init example_config ''snerge'' (0::nat))\<lparr>target := Some example_channel, last_message := 40\<rparr>" 100 7]
  by (simp add: bot_init_def example_config_def queue_quote_def randint_def call_later_def
       create_task_def)

section \<open>Properties of stop\<close>

lemma stop_effects:
  "effects (snd (stop ok s)) =
     effects s @ (case target s of
                    None \<Rightarrow> [Closed]
                  | Some c \<Rightarrow> if ok then [Sent farewell, Closed] else [SendFailed farewell])"
  by (simp add: stop_def send_def close_def cancel_def farewell_def Let_def
        split: option.splits)

lemma stop_outcome:
  "fst (stop ok s) = (if target s = None \<or> ok then Returned else Raised SendError)"
  by (simp add: stop_def send_def close_def cancel_def Let_def split: option.splits)

text \<open>
  C3, as stated, fails: with a channel joined and the farewell send raising, \<open>stop\<close> raises
  and the session is not closed.
\<close>

theorem stop_close_unconditional_counterexample:
  "fst (stop False connected_bot) = Raised SendError \<and>
   Closed \<notin> set (effects (snd (stop False connected_bot)))"
  by (simp add: stop_effects stop_outcome connected_bot_def bot_init_def)

text \<open>
  C3, amended. \<open>stop\<close> closes the session exactly when the farewell send does not raise:
  it returns and its last effect is the close when no channel is joined or the send
  succeeds; when a channel is joined and the send raises, \<open>stop\<close> raises that exception
  and does nothing after the failed send.
\<close>

theorem stop_closes_unless_farewell_raises:
  "(target s = None \<or> ok \<longrightarrow>
      fst (stop ok s) = Returned \<and>
      effects (snd (stop ok s)) =
        effects s @ (if target s = None then [] else [Sent farewell]) @ [Closed]) \<and>
   (target s \<noteq> None \<and> \<not> ok \<longrightarrow>
      fst (stop ok s) = Raised SendError \<and>
      effects (snd (stop ok s)) = effects s @ [SendFailed farewell])"
  by (auto simp: stop_effects stop_outcome)

theorem stop_closes_unless_farewell_raises_witness:
  "effects (snd (stop True connected_bot)) = [Sent farewell, Closed] \<and>
   effects (snd (stop False connected_bot)) = [SendFailed farewell] \<and>
   effects (snd (stop False (bot_init example_config ''snerge'' (0::nat)))) = [Closed]"
  using stop_closes_unless_farewell_raises [of connected_bot True]
    stop_closes_unless_farewell_raises [of connected_bot False]
    stop_closes_unless_farewell_raises [of "bot_init example_config ''snerge'' (0::nat)" False]
  by (simp add: connected_bot_def bot_init_def)

lemma stop_fields:
  "snd (stop ok s) =
     (case timer s of None \<Rightarrow> s | Some h \<Rightarrow> cancel h s)
       \<lparr>stop_flag := True,
        effects := effects s @ (case target s of
                    None \<Rightarrow> [Closed]
                  | Some c \<Rightarrow> if ok then [Sent farewell, Closed] else [SendFailed farewell])\<rparr>"
  by (simp add: stop_def send_def close_def cancel_def farewell_def Let_def
        split: option.splits)

lemma cancel_cancel: "cancel h (cancel h s) = cancel h s"
  by (simp add: cancel_def)

lemma stop_target: "target (snd (stop ok s)) = target s"
  by (simp add: stop_fields cancel_def split: option.splits)

text \<open>
  C4, as stated, fails: with a channel joined, two calls of \<open>stop\<close> send the farewell
  twice and close twice.
\<close>

theorem stop_twice_counterexample:
  "target connected_bot \<noteq> None \<and>
   effects (snd (stop True connected_bot)) = [Sent farewell, Closed] \<and>
   effects (snd (stop True (snd (stop True connected_bot)))) =
     [Sent farewell, Closed, Sent farewell, Closed] \<and>
   length (filter (\<lambda>e. e = Sent farewell)
             (effects (snd (stop True (snd (stop True connected_bot)))))) = 2"
  by (simp add: stop_effects stop_target connected_bot_def bot_init_def)

text \<open>
  C4, amended. A second call of \<open>stop\<close> leaves every field of the bot and every timer as the
  first call left them, and repeats what the first call did to the session: it sends the
  farewell again when a channel is joined, and closes again unless that send raises.
\<close>

theorem stop_twice_repeats_only_session_effects:
  "snd (stop ok2 (snd (stop ok1 s))) =
     (snd (stop ok1 s))
       \<lparr>effects := effects (snd (stop ok1 s)) @
          (case target s of
             None \<Rightarrow> [Closed]
           | Some c \<Rightarrow> if ok2 then [Sent farewell, Closed] else [SendFailed farewell])\<rparr>"
  by (simp add: stop_fields cancel_def split: option.splits)

theorem stop_twice_repeats_only_session_effects_witness:
  "snd (stop True (snd (stop True connected_bot))) =
     connected_bot\<lparr>stop_flag := True,
                    effects := [Sent farewell, Closed, Sent farewell, Closed]\<rparr> \<and>
   snd (stop True (snd (stop True (bot_init example_config ''snerge'' (0::nat))))) =
     (bot_init example_config ''snerge'' 0)\<lparr>stop_flag := True, effects := [Closed, Closed]\<rparr>"
  using stop_twice_repeats_only_session_effects [of True True connected_bot]
    stop_twice_repeats_only_session_effects [of True True "bot_init example_config ''snerge'' (0::nat)"]
  by (simp add: stop_fields connected_bot_def bot_init_def)

section \<open>Properties of posting\<close>

lemma str_replace_single: "str_replace [a] [b] s = map (replace_char a b) s"
  by (induction s) (auto simp: replace_char_def)

lemma randint_0_200: "randint (0, 200) r = Inr (r mod 201)"
  by (simp add: randint_def)

lemma owo_magic_maps:
  "owo_magic q =
     map (replace_char CHR ''l'' CHR ''w'')
       (map (replace_char CHR ''L'' CHR ''W'')
         (map (replace_char CHR ''r'' CHR ''w'')
           (map (replace_char CHR ''R'' CHR ''W'')
             (str_replace ''ove'' ''wuw'' q))))"
  by (simp only: owo_magic_def str_replace_single)

lemma owo_Love: "owo_magic ''Love'' = ''Wwuw''"
  by (simp add: owo_magic_def)

lemma send_quote_connected:
  "target s = Some c \<Longrightarrow>
   get_quote mk (quotes s) (fst (quote_length (config s))) (snd (quote_length (config s)))
     = (quote, calls, q') \<Longrightarrow>
   send_quote mk r ok s =
     send (if r mod 201 = 0 then ''[UwU] '' @ owo_magic quote @ '' [UwU]''
           else ''sergeSnerge '' @ quote @ '' sergeSnerge'') ok
       (s\<lparr>quotes := q', statements := statements s + calls\<rparr>)"
  by (simp add: send_quote_def randint_0_200 Let_def)


lemma randint_0_200_range: "{d. \<exists>r. randint (0, 200) r = Inr d} = {0..200}"
proof (intro set_eqI iffI)
  fix d :: int
  assume "d \<in> {d. \<exists>r. randint (0, 200) r = Inr d}"
  then obtain r where "d = r mod 201"
    by (auto simp: randint_0_200)
  then show "d \<in> {0..200}"
    by simp
next
  fix d :: int
  assume "d \<in> {0..200}"
  then have "randint (0, 200) d = Inr d"
    by (simp add: randint_0_200)
  then show "d \<in> {d. \<exists>r. randint (0, 200) r = Inr d}"
    by blast
qed

text \<open>
  C6. \<open>owo_magic\<close> replaces the substring \<open>ove\<close> by \<open>wuw\<close> and then, one after the other,
  the characters \<open>R\<close> by \<open>W\<close>, \<open>r\<close> by \<open>w\<close>, \<open>L\<close> by \<open>W\<close> and \<open>l\<close> by \<open>w\<close>; it turns
  \<open>Love\<close> into \<open>Wwuw\<close>. When \<open>randint(0, 200)\<close> is 0, \<open>send_quote\<close> sends the quote so
  changed between two \<open>[UwU]\<close> markers. \<open>randint(0, 200)\<close> has exactly the 201 results
  0 to 200, of which 0 alone takes this path.
\<close>

theorem festive_path_substitutions:
  "owo_magic q =
     map (replace_char CHR ''l'' CHR ''w'')
       (map (replace_char CHR ''L'' CHR ''W'')
         (map (replace_char CHR ''r'' CHR ''w'')
           (map (replace_char CHR ''R'' CHR ''W'')
             (str_replace ''ove'' ''wuw'' q)))) \<and>
   owo_magic ''Love'' = ''Wwuw'' \<and>
   (\<forall>c quote calls q'.
      target s = Some c \<and>
      get_quote mk (quotes s) (fst (quote_length (config s))) (snd (quote_length (config s)))
        = (quote, calls, q') \<and>
      randint (0, 200) r = Inr 0 \<longrightarrow>
      send_quote mk r ok s =
        send (''[UwU] '' @ owo_magic quote @ '' [UwU]'') ok
          (s\<lparr>quotes := q', statements := statements s + calls\<rparr>)) \<and>
   {d. \<exists>r. randint (0, 200) r = Inr d} = {0..200} \<and>
   card {d. \<exists>r. randint (0, 200) r = Inr d} = 201"
proof (intro conjI allI impI)
  show "owo_magic q =
     map (replace_char CHR ''l'' CHR ''w'')
       (map (replace_char CHR ''L'' CHR ''W'')
         (map (replace_char CHR ''r'' CHR ''w'')
           (map (replace_char CHR ''R'' CHR ''W'')
             (str_replace ''ove'' ''wuw'' q))))"
    by (rule owo_magic_maps)
  show "owo_magic ''Love'' = ''Wwuw''"
    by (rule owo_Love)
  show "{d. \<exists>r. randint (0, 200) r = Inr d} = {0..200}"
    by (rule randint_0_200_range)
  show "card {d. \<exists>r. randint (0, 200) r = Inr d} = 201"
    by (simp only: randint_0_200_range) simp
next
  fix c quote calls q'
  assume a: "target s = Some c \<and>
      get_quote mk (quotes s) (fst (quote_length (config s))) (snd (quote_length (config s)))
        = (quote, calls, q') \<and>
      randint (0, 200) r = Inr 0"
  then have "r mod 201 = 0"
    by (simp add: randint_0_200)
  then show "send_quote mk r ok s =
        send (''[UwU] '' @ owo_magic quote @ '' [UwU]'') ok
          (s\<lparr>quotes := q', statements := statements s + calls\<rparr>)"
    using a send_quote_connected [of s c mk quote calls q' r ok] by simp
qed

lemma love_quote: "get_quote love_prosegen () 2 5 = (''Love'', 1, ())"
  by (simp add: get_quote_def love_prosegen_def numeral_eq_Suc)

theorem festive_path_substitutions_witness:
  "send_quote love_prosegen 402 True love_bot =
     (Returned, love_bot\<lparr>statements := 1, effects := [Sent ''[UwU] Wwuw [UwU]'']\<rparr>)"
proof -
  have pre: "target love_bot = Some example_channel \<and>
      get_quote love_prosegen (quotes love_bot) (fst (quote_length (config love_bot)))
         (snd (quote_length (config love_bot))) = (''Love'', 1, ()) \<and>
      randint (0, 200) 402 = Inr 0"
    by (simp add: love_bot_def bot_init_def example_config_def love_quote randint_def)
  have "send_quote love_prosegen 402 True love_bot =
        send (''[UwU] '' @ owo_magic ''Love'' @ '' [UwU]'') True
          (love_bot\<lparr>quotes := (), statements := statements love_bot + 1\<rparr>)"
    using festive_path_substitutions [of "''x''" love_bot love_prosegen 402 True] pre
    by blast
  moreover have "owo_magic ''Love'' = ''Wwuw''"
    using festive_path_substitutions [of "''x''" love_bot love_prosegen 402 True] by blast
  ultimately show ?thesis
    by (simp add: send_def love_bot_def bot_init_def)
qed

lemma send_quote_one_send:
  assumes "target s = Some c"
  shows "\<exists>msg q' calls. send_quote mk r ok s =
           (if ok then Returned else Raised SendError,
            s\<lparr>quotes := q', statements := statements s + calls,
              effects := effects s @ [if ok then Sent msg else SendFailed msg]\<rparr>)"
proof -
  obtain quote calls q' where g:
    "get_quote mk (quotes s) (fst (quote_length (config s))) (snd (quote_length (config s)))
       = (quote, calls, q')"
    by (metis prod_cases3)
  show ?thesis
    unfolding send_quote_connected [OF assms g]
    by (auto simp: send_def)
qed

text \<open>
  C7. A message whose author is not a moderator (or is absent) triggers no post, whatever
  its content: \<open>event_message\<close> returns without sending, without asking for a quote and
  without creating a task. A message whose author is present, is not the bot itself, is
  found as a chatter of the joined channel and is a moderator, and whose lowercased
  content is \<open>!snerge\<close> or starts with \<open>!snerge\<close> and a space, runs \<open>send_quote\<close> once, at
  once: exactly one send is made and no task is created.
\<close>

theorem event_message_moderator_command:
  "((\<forall>a. author m = Some a \<longrightarrow> \<not> is_mod a) \<longrightarrow>
      fst (event_message mk m now r ok s) = Returned \<and>
      effects (snd (event_message mk m now r ok s)) = effects s \<and>
      tasks (snd (event_message mk m now r ok s)) = tasks s \<and>
      statements (snd (event_message mk m now r ok s)) = statements s \<and>
      quotes (snd (event_message mk m now r ok s)) = quotes s) \<and>
   (\<forall>a c. author m = Some a \<and> lower (name a) \<noteq> lower (nick s) \<and> target s = Some c \<and>
        get_chatter c (name a) = FoundChatter \<and> is_mod a \<and>
        (lower (content m) = ''!snerge'' \<or> prefix ''!snerge '' (lower (content m))) \<longrightarrow>
      event_message mk m now r ok s = send_quote mk r ok (s\<lparr>last_message := py_int now\<rparr>) \<and>
      tasks (snd (event_message mk m now r ok s)) = tasks s \<and>
      (\<exists>msg. effects (snd (event_message mk m now r ok s)) =
                effects s @ [if ok then Sent msg else SendFailed msg]))"
proof (intro conjI allI impI)
  assume nonmod: "\<forall>a. author m = Some a \<longrightarrow> \<not> is_mod a"
  then have "event_message mk m now r ok s = (Returned, s) \<or>
             event_message mk m now r ok s = (Returned, s\<lparr>last_message := py_int now\<rparr>)"
    by (auto simp: event_message_def Let_def split: option.splits)
  then show "fst (event_message mk m now r ok s) = Returned"
    and "effects (snd (event_message mk m now r ok s)) = effects s"
    and "tasks (snd (event_message mk m now r ok s)) = tasks s"
    and "statements (snd (event_message mk m now r ok s)) = statements s"
    and "quotes (snd (event_message mk m now r ok s)) = quotes s"
    by auto
next
  fix a c
  assume cmd: "author m = Some a \<and> lower (name a) \<noteq> lower (nick s) \<and> target s = Some c \<and>
        get_chatter c (name a) = FoundChatter \<and> is_mod a \<and>
        (lower (content m) = ''!snerge'' \<or> prefix ''!snerge '' (lower (content m)))"
  then show eq: "event_message mk m now r ok s = send_quote mk r ok (s\<lparr>last_message := py_int now\<rparr>)"
    by (auto simp: event_message_def Let_def)
  have t: "target (s\<lparr>last_message := py_int now\<rparr>) = Some c"
    using cmd by simp
  from send_quote_one_send [OF t, of mk r ok]
  obtain msg q' calls where sq: "send_quote mk r ok (s\<lparr>last_message := py_int now\<rparr>) =
           (if ok then Returned else Raised SendError,
            s\<lparr>last_message := py_int now, quotes := q',
              statements := statements s + calls,
              effects := effects s @ [if ok then Sent msg else SendFailed msg]\<rparr>)"
    by auto
  show "tasks (snd (event_message mk m now r ok s)) = tasks s"
    by (simp add: eq sq)
  show "\<exists>msg. effects (snd (event_message mk m now r ok s)) =
                effects s @ [if ok then Sent msg else SendFailed msg]"
    by (simp add: eq sq)
qed

lemma lower_examples:
  "lower ''!Snerge now'' = ''!snerge now''" "lower ''mod'' = ''mod''"
  "lower ''fan'' = ''fan''" "lower ''snerge'' = ''snerge''"
  by code_simp+

theorem event_message_moderator_command_witness:
  "event_message love_prosegen fan_message 17 402 True love_bot =
     (Returned, love_bot\<lparr>last_message := 17\<rparr>) \<and>
   event_message love_prosegen mod_message 17 402 True love_bot =
     (Returned, love_bot\<lparr>last_message := 17, statements := 1,
                         effects := [Sent ''[UwU] Wwuw [UwU]'']\<rparr>)"
proof -
  have fan: "\<forall>a. author fan_message = Some a \<longrightarrow> \<not> is_mod a"
    by (simp add: fan_message_def)
  have "effects (snd (event_message love_prosegen fan_message 17 402 True love_bot)) =
          effects love_bot"
    using event_message_moderator_command [of fan_message love_prosegen 17 402 True love_bot] fan
    by blast
  moreover have "event_message love_prosegen fan_message 17 402 True love_bot =
     (Returned, love_bot\<lparr>last_message := 17\<rparr>)"
    by (simp add: event_message_def fan_message_def love_bot_def bot_init_def example_channel_def
          lower_examples py_int_def)
  moreover have cmd: "author mod_message = Some \<lparr>name = ''mod'', is_mod = True\<rparr> \<and>
      lower (name \<lparr>name = ''mod'', is_mod = True\<rparr>) \<noteq> lower (nick love_bot) \<and>
      target love_bot = Some example_channel \<and>
      get_chatter example_channel (name \<lparr>name = ''mod'', is_mod = True\<rparr>) = FoundChatter \<and>
      is_mod \<lparr>name = ''mod'', is_mod = True\<rparr> \<and>
      (lower (content mod_message) = ''!snerge'' \<or>
       prefix ''!snerge '' (lower (content mod_message)))"
    by (simp add: mod_message_def love_bot_def bot_init_def example_channel_def lower_examples)
  have "event_message love_prosegen mod_message 17 402 True love_bot =
          send_quote love_prosegen 402 True (love_bot\<lparr>last_message := py_int 17\<rparr>)"
    using event_message_moderator_command [of mod_message love_prosegen 17 402 True love_bot] cmd
    by blast
  moreover have "send_quote love_prosegen 402 True (love_bot\<lparr>last_message := py_int 17\<rparr>) =
     (Returned, love_bot\<lparr>last_message := 17, statements := 1,
                         effects := [Sent ''[UwU] Wwuw [UwU]'']\<rparr>)"
    by (simp add: send_quote_def love_bot_def bot_init_def example_config_def love_quote
          randint_def send_def owo_Love py_int_def)
  ultimately show ?thesis
    by simp
qed

text \<open>
  C8. With no channel joined, \<open>send_quote\<close> returns the state as it is: no quote is asked
  for and nothing is sent. So a \<open>send_quote\<close> task that the tick created does nothing but
  leave the queue, and \<open>event_message\<close> sends nothing, asks for no quote and creates no
  task.
\<close>

theorem send_quote_disconnected_noop:
  assumes disconnected: "target s = None"
  shows "send_quote mk r ok s = (Returned, s) \<and>
         (\<forall>ts. tasks s = SendQuoteTask # ts \<longrightarrow>
            step mk (RunTask now r ok) s = s\<lparr>tasks := ts\<rparr>) \<and>
         fst (event_message mk m now r ok s) = Returned \<and>
         effects (snd (event_message mk m now r ok s)) = effects s \<and>
         statements (snd (event_message mk m now r ok s)) = statements s \<and>
         quotes (snd (event_message mk m now r ok s)) = quotes s \<and>
         tasks (snd (event_message mk m now r ok s)) = tasks s"
proof -
  have sq: "\<And>s'. target s' = None \<Longrightarrow> send_quote mk r ok s' = (Returned, s')"
    by (simp add: send_quote_def)
  have "event_message mk m now r ok s = (Returned, s) \<or>
        event_message mk m now r ok s = (Returned, s\<lparr>last_message := py_int now\<rparr>)"
    using disconnected by (auto simp: event_message_def Let_def split: option.splits)
  moreover have "\<forall>ts. tasks s = SendQuoteTask # ts \<longrightarrow>
            step mk (RunTask now r ok) s = s\<lparr>tasks := ts\<rparr>"
    using disconnected by (simp add: sq)
  ultimately show ?thesis
    using sq [OF disconnected] by auto
qed

theorem send_quote_disconnected_noop_witness:
  "send_quote love_prosegen 402 True (bot_init example_config ''snerge'' ()) =
     (Returned, bot_init example_config ''snerge'' ()) \<and>
   step love_prosegen (RunTask 17 402 True)
       ((bot_init example_config ''snerge'' ())\<lparr>tasks := [SendQuoteTask]\<rparr>) =
     bot_init example_config ''snerge'' ()"
  using send_quote_disconnected_noop [of "bot_init example_config ''snerge'' ()" love_prosegen 402 True]
    send_quote_disconnected_noop
      [of "(bot_init example_config ''snerge'' ())\<lparr>tasks := [SendQuoteTask]\<rparr>"
          love_prosegen 402 True 17]
  by (simp add: bot_init_def)

section \<open>Shutdown finality\<close>

lemma scheduler_inv_cong:
  "timer s' = timer s \<Longrightarrow> stop_flag s' = stop_flag s \<Longrightarrow> timers s' = timers s \<Longrightarrow>
   tasks s' = tasks s \<Longrightarrow> ready_pc s' = ready_pc s \<Longrightarrow>
   scheduler_inv s' = scheduler_inv s"
  by (simp add: scheduler_inv_def)

lemma scheduler_inv_init: "scheduler_inv (bot_init c n q)"
  by (simp add: scheduler_inv_def bot_init_def)

lemma send_quote_shape:
  "\<exists>q' n' ef'. snd (send_quote mk r ok s) = s\<lparr>quotes := q', statements := n', effects := ef'\<rparr>"
proof (cases "target s")
  case None
  then have "snd (send_quote mk r ok s) = s\<lparr>quotes := quotes s, statements := statements s, effects := effects s\<rparr>"
    by (simp add: send_quote_def)
  then show ?thesis by blast
next
  case (Some c)
  obtain quote calls q' where g:
    "get_quote mk (quotes s) (fst (quote_length (config s))) (snd (quote_length (config s)))
       = (quote, calls, q')"
    by (metis prod_cases3)
  have "snd (send_quote mk r ok s) =
          snd (send (if r mod 201 = 0 then ''[UwU] '' @ owo_magic quote @ '' [UwU]''
           else ''sergeSnerge '' @ quote @ '' sergeSnerge'') ok
       (s\<lparr>quotes := q', statements := statements s + calls\<rparr>))"
    by (simp add: send_quote_connected [OF Some g])
  then show ?thesis
    by (cases ok) (auto simp: send_def)
qed

lemma send_quote_inv: "scheduler_inv (snd (send_quote mk r ok s)) = scheduler_inv s"
proof -
  obtain q' n' ef' where "snd (send_quote mk r ok s) = s\<lparr>quotes := q', statements := n', effects := ef'\<rparr>"
    using send_quote_shape [of mk r ok s] by auto
  then show ?thesis
    by (simp add: scheduler_inv_def)
qed

lemma event_message_shape:
  "snd (event_message mk m now r ok s) = s \<or>
   snd (event_message mk m now r ok s) = s\<lparr>last_message := py_int now\<rparr> \<or>
   snd (event_message mk m now r ok s) = snd (send_quote mk r ok (s\<lparr>last_message := py_int now\<rparr>))"
  by (auto simp: event_message_def Let_def split: option.splits)

lemma event_message_inv: "scheduler_inv (snd (event_message mk m now r ok s)) = scheduler_inv s"
proof -
  have "scheduler_inv (s\<lparr>last_message := py_int now\<rparr>) = scheduler_inv s"
    by (simp add: scheduler_inv_def)
  then show ?thesis
    using event_message_shape [of mk m now r ok s] send_quote_inv [of mk r ok "s\<lparr>last_message := py_int now\<rparr>"]
    by auto
qed

lemma scheduler_inv_no_pending:
  assumes "\<forall>h. h < length (timers s) \<longrightarrow> snd (timers s ! h) \<noteq> Pending"
    and "ready_pc s < 2 \<longrightarrow> QueueQuoteTask \<notin> set (tasks s)"
    and "length (filter (\<lambda>t. t = QueueQuoteTask) (tasks s)) \<le> 1"
  shows "scheduler_inv s"
  unfolding scheduler_inv_def using assms by blast

lemma update_none_pending:
  assumes only: "\<forall>h'. h' < length ts \<and> snd (ts ! h') = Pending \<longrightarrow> h' = h"
    and st: "st \<noteq> Pending"
  shows "\<forall>h'. h' < length (ts[h := (d, st)]) \<longrightarrow> snd (ts[h := (d, st)] ! h') \<noteq> Pending"
proof (intro allI impI)
  fix h'
  assume lt: "h' < length (ts[h := (d, st)])"
  show "snd (ts[h := (d, st)] ! h') \<noteq> Pending"
  proof (cases "h' = h")
    case True
    then show ?thesis using lt st by simp
  next
    case False
    then have "ts[h := (d, st)] ! h' = ts ! h'"
      by simp
    moreover have "snd (ts ! h') \<noteq> Pending"
      using only lt False by auto
    ultimately show ?thesis by simp
  qed
qed

lemma cancel_none_pending:
  assumes only: "\<forall>h'. h' < length (timers s) \<and> snd (timers s ! h') = Pending \<longrightarrow> h' = h"
  shows "\<forall>h'. h' < length (timers (cancel h s)) \<longrightarrow> snd (timers (cancel h s) ! h') \<noteq> Pending"
proof (cases "h < length (timers s) \<and> snd (timers s ! h) = Pending")
  case True
  then have "timers (cancel h s) = (timers s)[h := (fst (timers s ! h), Cancelled)]"
    by (simp add: cancel_def)
  then show ?thesis
    using update_none_pending [OF only, of Cancelled "fst (timers s ! h)"] by simp
next
  case False
  then have "timers (cancel h s) = timers s"
    by (auto simp: cancel_def)
  then show ?thesis
    using only False by metis
qed

lemma cancel_other_fields:
  "tasks (cancel h s) = tasks s" "ready_pc (cancel h s) = ready_pc s"
  by (simp_all add: cancel_def)

lemma stop_inv:
  assumes inv: "scheduler_inv s"
  shows "scheduler_inv (snd (stop ok s))"
proof -
  let ?c = "case timer s of None \<Rightarrow> s | Some h \<Rightarrow> cancel h s"
  have fields: "tasks ?c = tasks s" "ready_pc ?c = ready_pc s"
    by (simp_all add: cancel_other_fields split: option.splits)
  have none: "\<forall>h'. h' < length (timers ?c) \<longrightarrow> snd (timers ?c ! h') \<noteq> Pending"
  proof (cases "timer s")
    case None
    then show ?thesis
      using inv by (auto simp: scheduler_inv_def)
  next
    case (Some h)
    have "\<forall>h'. h' < length (timers s) \<and> snd (timers s ! h') = Pending \<longrightarrow> h' = h"
      using inv Some by (auto simp: scheduler_inv_def)
    from cancel_none_pending [OF this] show ?thesis
      using Some by simp
  qed
  have rest: "ready_pc s < 2 \<longrightarrow> QueueQuoteTask \<notin> set (tasks s)"
    "length (filter (\<lambda>t. t = QueueQuoteTask) (tasks s)) \<le> 1"
    using inv by (simp_all add: scheduler_inv_def)
  show ?thesis
    unfolding stop_fields
    by (rule scheduler_inv_no_pending) (use none fields rest in simp_all)
qed

lemma stop_sets_flag: "stop_flag (snd (stop ok s))"
  unfolding stop_fields by simp

lemma queue_quote_shape:
  "snd (queue_quote now r s) = s \<or>
   snd (queue_quote now r s) = s\<lparr>tasks := tasks s @ [SendQuoteTask]\<rparr> \<or>
   (\<not> stop_flag s \<and>
    (\<exists>d. snd (queue_quote now r s) =
            s\<lparr>timers := timers s @ [(d, Pending)], timer := Some (length (timers s))\<rparr> \<or>
          snd (queue_quote now r s) =
            s\<lparr>tasks := tasks s @ [SendQuoteTask], timers := timers s @ [(d, Pending)],
              timer := Some (length (timers s))\<rparr>))"
  by (auto simp: queue_quote_def call_later_def create_task_def split: option.splits sum.splits)

lemma queue_quote_stopped: "stop_flag s \<Longrightarrow> queue_quote now r s = (Returned, s)"
  by (simp add: queue_quote_def)

lemma filter_QQ_head:
  "length (filter (\<lambda>t. t = QueueQuoteTask) (QueueQuoteTask # ts)) \<le> 1 \<Longrightarrow>
   QueueQuoteTask \<notin> set ts"
  by (auto simp: filter_empty_conv)

lemma run_queue_quote_inv:
  assumes inv: "scheduler_inv s" and hd: "tasks s = QueueQuoteTask # ts"
  shows "scheduler_inv (snd (queue_quote now r (s\<lparr>tasks := ts\<rparr>)))"
proof -
  have nq: "QueueQuoteTask \<notin> set ts"
    using inv hd filter_QQ_head [of ts] by (simp add: scheduler_inv_def)
  have np: "\<forall>h. h < length (timers s) \<longrightarrow> snd (timers s ! h) \<noteq> Pending"
    using inv hd by (simp add: scheduler_inv_def)
  have pc: "\<not> ready_pc s < 2"
    using inv hd by (auto simp: scheduler_inv_def)
  have e: "filter (\<lambda>t. t = QueueQuoteTask) ts = []"
    using nq by (auto simp: filter_empty_conv)
  show ?thesis
    using queue_quote_shape [of now r "s\<lparr>tasks := ts\<rparr>"] nq np pc e
    by (auto simp: scheduler_inv_def nth_append split: if_splits)
qed

lemma run_send_quote_inv:
  assumes inv: "scheduler_inv s" and hd: "tasks s = SendQuoteTask # ts"
  shows "scheduler_inv (snd (send_quote mk r ok (s\<lparr>tasks := ts\<rparr>)))"
proof -
  have "scheduler_inv (s\<lparr>tasks := ts\<rparr>)"
    using inv hd by (auto simp: scheduler_inv_def)
  then show ?thesis
    by (simp only: send_quote_inv)
qed

lemma timer_fires_inv:
  assumes inv: "scheduler_inv s"
    and p: "h < length (timers s)" "snd (timers s ! h) = Pending"
  shows "scheduler_inv (create_task QueueQuoteTask
             (s\<lparr>timers := (timers s)[h := (fst (timers s ! h), Fired)]\<rparr>))"
proof -
  have t: "timer s = Some h"
    using inv p by (simp add: scheduler_inv_def)
  have only: "\<forall>h'. h' < length (timers s) \<and> snd (timers s ! h') = Pending \<longrightarrow> h' = h"
    using inv t by (auto simp: scheduler_inv_def)
  have nq: "QueueQuoteTask \<notin> set (tasks s)"
    using inv p by (auto simp: scheduler_inv_def)
  have pc: "\<not> ready_pc s < 2"
    using inv p by (auto simp: scheduler_inv_def)
  have e: "filter (\<lambda>t. t = QueueQuoteTask) (tasks s) = []"
    using nq by (auto simp: filter_empty_conv)
  show ?thesis
    unfolding create_task_def
    by (rule scheduler_inv_no_pending)
       (use update_none_pending [OF only, of Fired "fst (timers s ! h)"] pc e in simp_all)
qed

lemma event_ready_join_shape:
  "event_ready_join rs s = Some s1 \<Longrightarrow> \<exists>t. s1 = s\<lparr>target := t\<rparr>"
proof (induction rs arbitrary: s)
  case Nil
  then have "s1 = s\<lparr>target := target s\<rparr>"
    by (simp split: option.splits)
  then show ?case by blast
next
  case (Cons r rs)
  show ?case
  proof (cases "target s")
    case None
    with Cons.prems have "event_ready_join rs (s\<lparr>target := r\<rparr>) = Some s1"
      by simp
    from Cons.IH [OF this] show ?thesis
      by auto
  next
    case (Some c)
    with Cons.prems have "s1 = s\<lparr>target := target s\<rparr>"
      by simp
    then show ?thesis by blast
  qed
qed

lemma ready_join_inv:
  assumes inv: "scheduler_inv s" and pc: "ready_pc s = 0"
  shows "scheduler_inv (case event_ready_join rs s of None \<Rightarrow> s | Some s1 \<Rightarrow> s1\<lparr>ready_pc := 1\<rparr>)"
proof (cases "event_ready_join rs s")
  case None
  then show ?thesis using inv by simp
next
  case (Some s1)
  then obtain t where "s1 = s\<lparr>target := t\<rparr>"
    using event_ready_join_shape by blast
  then show ?thesis
    using inv pc Some by (auto simp: scheduler_inv_def)
qed

lemma ready_greet_inv:
  assumes inv: "scheduler_inv s" and pc: "ready_pc s = 1"
  shows "scheduler_inv ((snd (event_ready_greet ok s))\<lparr>ready_pc := 2\<rparr>)"
proof -
  have e: "filter (\<lambda>t. t = QueueQuoteTask) (tasks s) = []"
    using inv pc by (auto simp: scheduler_inv_def filter_empty_conv)
  show ?thesis
    using inv pc e
    by (cases ok) (auto simp: scheduler_inv_def event_ready_greet_def send_def create_task_def)
qed

lemma step_inv: "scheduler_inv s \<Longrightarrow> scheduler_inv (step mk e s)"
proof (cases e)
  case (ReadyJoin rs)
  assume "scheduler_inv s"
  then show ?thesis
    using ReadyJoin ready_join_inv [of s rs] by simp
next
  case (ReadyGreet ok)
  assume "scheduler_inv s"
  then show ?thesis
    using ReadyGreet ready_greet_inv [of s ok] by simp
next
  case (Inbound m now r ok)
  assume "scheduler_inv s"
  then show ?thesis
    using Inbound by (simp add: event_message_inv)
next
  case (TimerFires h)
  assume "scheduler_inv s"
  then show ?thesis
    using TimerFires timer_fires_inv [of s h] by simp
next
  case (RunTask now r ok)
  assume inv: "scheduler_inv s"
  show ?thesis
  proof (cases "tasks s")
    case Nil
    then show ?thesis using RunTask inv by simp
  next
    case (Cons t ts)
    then show ?thesis
      using RunTask inv run_queue_quote_inv [of s ts now r] run_send_quote_inv [of s ts mk r ok]
      by (cases t) simp_all
  qed
next
  case (Stop ok)
  assume "scheduler_inv s"
  then show ?thesis
    using Stop by (simp add: stop_inv)
qed

lemma run_inv: "scheduler_inv s \<Longrightarrow> scheduler_inv (run mk es s)"
  by (induction es arbitrary: s) (simp_all add: step_inv)

lemma mem_pending_timers:
  "h \<in> set (pending_timers s) \<longleftrightarrow> h < length (timers s) \<and> snd (timers s ! h) = Pending"
  by (auto simp: pending_timers_def)

lemma pending_timers_empty:
  "pending_timers s = [] \<longleftrightarrow> (\<forall>h. h < length (timers s) \<longrightarrow> snd (timers s ! h) \<noteq> Pending)"
  by (auto simp: pending_timers_def filter_empty_conv)

lemma scheduler_inv_at_most_one:
  assumes inv: "scheduler_inv s"
  shows "length (pending_timers s) \<le> 1"
proof (cases "timer s")
  case None
  then have "pending_timers s = []"
    using inv by (auto simp: pending_timers_empty scheduler_inv_def)
  then show ?thesis by simp
next
  case (Some h0)
  have "set (pending_timers s) \<subseteq> {h0}"
    using inv Some by (auto simp: mem_pending_timers scheduler_inv_def)
  then have "card (set (pending_timers s)) \<le> card {h0}"
    by (intro card_mono) simp_all
  moreover have "distinct (pending_timers s)"
    by (simp add: pending_timers_def)
  ultimately show ?thesis
    by (simp add: distinct_card)
qed

lemma scheduler_inv_stopped:
  "scheduler_inv s \<Longrightarrow> stop_flag s \<Longrightarrow> pending_timers s = []"
  by (simp add: pending_timers_empty scheduler_inv_def)

lemma step_stopped:
  assumes stopped: "stop_flag s"
  shows "stop_flag (step mk e s) \<and> length (timers (step mk e s)) = length (timers s)"
proof (cases e)
  case (ReadyJoin rs)
  show ?thesis
  proof (cases "event_ready_join rs s")
    case None
    then show ?thesis using ReadyJoin stopped by simp
  next
    case (Some s1)
    then obtain t where "s1 = s\<lparr>target := t\<rparr>"
      using event_ready_join_shape by blast
    then show ?thesis using ReadyJoin Some stopped by simp
  qed
next
  case (ReadyGreet ok)
  then show ?thesis
    using stopped by (cases ok) (simp_all add: event_ready_greet_def send_def create_task_def)
next
  case (Inbound m now r ok)
  obtain q' n' ef' where
    "snd (send_quote mk r ok (s\<lparr>last_message := py_int now\<rparr>)) =
       s\<lparr>last_message := py_int now, quotes := q', statements := n', effects := ef'\<rparr>"
    using send_quote_shape [of mk r ok "s\<lparr>last_message := py_int now\<rparr>"] by auto
  then show ?thesis
    using Inbound stopped event_message_shape [of mk m now r ok s] by auto
next
  case (TimerFires h)
  then show ?thesis
    using stopped by (simp add: create_task_def)
next
  case (RunTask now r ok)
  show ?thesis
  proof (cases "tasks s")
    case Nil
    then show ?thesis using RunTask stopped by simp
  next
    case (Cons t ts)
    obtain q' n' ef' where sq:
      "snd (send_quote mk r ok (s\<lparr>tasks := ts\<rparr>)) =
         s\<lparr>tasks := ts, quotes := q', statements := n', effects := ef'\<rparr>"
      using send_quote_shape [of mk r ok "s\<lparr>tasks := ts\<rparr>"] by auto
    have qq: "queue_quote now r (s\<lparr>tasks := ts\<rparr>) = (Returned, s\<lparr>tasks := ts\<rparr>)"
      using stopped by (simp add: queue_quote_stopped)
    show ?thesis
      using RunTask Cons stopped sq qq by (cases t) simp_all
  qed
next
  case (Stop ok)
  then show ?thesis
    by (simp add: stop_fields cancel_def split: option.splits)
qed

lemma run_task_stopped_tick:
  "stop_flag s \<Longrightarrow> tasks s = QueueQuoteTask # ts \<Longrightarrow>
   step mk (RunTask now r ok) s = s\<lparr>tasks := ts\<rparr>"
  by (simp add: queue_quote_stopped)

lemma timer_fires_none_pending:
  "pending_timers s = [] \<Longrightarrow> step mk (TimerFires h) s = s"
  by (auto simp: pending_timers_empty)

text \<open>
  C5. Take any state that the bot reaches from its initial state by steps of the event
  loop, \<open>event_ready\<close> being dispatched once. At most one timer is pending in it. If \<open>stop\<close>
  has set \<open>_stop\<close>, then no timer is pending (the armed one has been cancelled, or had
  fired already), so none can fire; a tick, also one that a timer queued just before,
  returns at once, without a post and without arming a timer; and every further step
  leaves \<open>_stop\<close> set, arms no timer and leaves none pending.
\<close>

theorem stopped_bot_never_ticks_again:
  assumes reach: "s = run mk es (bot_init cfg n q)"
  shows "length (pending_timers s) \<le> 1 \<and>
         (stop_flag s \<longrightarrow>
            pending_timers s = [] \<and>
            (\<forall>h. step mk (TimerFires h) s = s) \<and>
            queue_quote now r s = (Returned, s) \<and>
            (\<forall>ts. tasks s = QueueQuoteTask # ts \<longrightarrow>
               step mk (RunTask now r ok) s = s\<lparr>tasks := ts\<rparr>) \<and>
            (\<forall>e. stop_flag (step mk e s) \<and>
                 length (timers (step mk e s)) = length (timers s) \<and>
                 pending_timers (step mk e s) = []))"
proof -
  have inv: "scheduler_inv s"
    unfolding reach by (rule run_inv, rule scheduler_inv_init)
  have one: "length (pending_timers s) \<le> 1"
    using inv by (rule scheduler_inv_at_most_one)
  have after: "stop_flag s \<longrightarrow>
            pending_timers s = [] \<and>
            (\<forall>h. step mk (TimerFires h) s = s) \<and>
            queue_quote now r s = (Returned, s) \<and>
            (\<forall>ts. tasks s = QueueQuoteTask # ts \<longrightarrow>
               step mk (RunTask now r ok) s = s\<lparr>tasks := ts\<rparr>) \<and>
            (\<forall>e. stop_flag (step mk e s) \<and>
                 length (timers (step mk e s)) = length (timers s) \<and>
                 pending_timers (step mk e s) = [])"
  proof
    assume stopped: "stop_flag s"
    have none: "pending_timers s = []"
      using inv stopped by (rule scheduler_inv_stopped)
    have fires: "\<forall>h. step mk (TimerFires h) s = s"
      using none by (simp only: timer_fires_none_pending simp_thms)
    have tick: "queue_quote now r s = (Returned, s)"
      using stopped by (rule queue_quote_stopped)
    have task: "\<forall>ts. tasks s = QueueQuoteTask # ts \<longrightarrow>
               step mk (RunTask now r ok) s = s\<lparr>tasks := ts\<rparr>"
      using stopped run_task_stopped_tick [of s _ mk now r ok] by blast
    have later: "\<forall>e. stop_flag (step mk e s) \<and>
                 length (timers (step mk e s)) = length (timers s) \<and>
                 pending_timers (step mk e s) = []"
    proof
      fix e
      have a: "stop_flag (step mk e s) \<and> length (timers (step mk e s)) = length (timers s)"
        using stopped by (rule step_stopped)
      have "scheduler_inv (step mk e s)"
        using inv by (rule step_inv)
      then have "pending_timers (step mk e s) = []"
        using a by (simp add: scheduler_inv_stopped)
      with a show "stop_flag (step mk e s) \<and>
                 length (timers (step mk e s)) = length (timers s) \<and>
                 pending_timers (step mk e s) = []"
        by simp
    qed
    show "pending_timers s = [] \<and>
            (\<forall>h. step mk (TimerFires h) s = s) \<and>
            queue_quote now r s = (Returned, s) \<and>
            (\<forall>ts. tasks s = QueueQuoteTask # ts \<longrightarrow>
               step mk (RunTask now r ok) s = s\<lparr>tasks := ts\<rparr>) \<and>
            (\<forall>e. stop_flag (step mk e s) \<and>
                 length (timers (step mk e s)) = length (timers s) \<and>
                 pending_timers (step mk e s) = [])"
      using none fires tick task later by blast
  qed
  show ?thesis
    using one after by blast
qed

lemma example_trace_state:
  "run love_prosegen example_trace (bot_init example_config ''snerge'' ()) =
     \<lparr>config = example_config, nick = ''snerge'', quotes = (),
      target = Some example_channel, last_message = 0, timer = Some 0, stop_flag = True,
      timers = [(67, Fired)], tasks = [QueueQuoteTask],
      effects = [Sent ''Never fear, Snerge is here!'', Sent ''sergeSnerge Sleepy time!'', Closed],
      statements = 0, ready_pc = 2\<rparr>"
  by (simp add: example_trace_def bot_init_def example_config_def event_ready_greet_def
        send_def create_task_def queue_quote_def randint_def call_later_def stop_def
        cancel_def close_def)

theorem stopped_bot_never_ticks_again_witness:
  "stop_flag (run love_prosegen example_trace (bot_init example_config ''snerge'' ())) \<and>
   pending_timers (run love_prosegen example_trace (bot_init example_config ''snerge'' ())) = [] \<and>
   step love_prosegen (RunTask 200 7 True)
       (run love_prosegen example_trace (bot_init example_config ''snerge'' ())) =
     (run love_prosegen example_trace (bot_init example_config ''snerge'' ()))\<lparr>tasks := []\<rparr>"
proof -
  let ?s = "run love_prosegen example_trace (bot_init example_config ''snerge'' ())"
  have stopped: "stop_flag ?s"
    by (simp add: example_trace_state)
  have hd: "tasks ?s = QueueQuoteTask # []"
    by (simp add: example_trace_state)
  show ?thesis
    using stopped_bot_never_ticks_again
        [OF refl, of love_prosegen example_trace example_config "''snerge''" "()" 200 7 True]
      stopped hd
    by blast
qed

end
